theory Spec2Isabelle
  imports Complex_Main "HOL-Library.Word"
begin

section \<open>Numbers and errors of the Python source\<close>

text \<open>
  The source is \<^verbatim>\<open>smartcrop/library.py\<close>. Python \<^verbatim>\<open>int\<close> values are modelled
  as \<^typ>\<open>int\<close>, Python \<^verbatim>\<open>float\<close> values as \<^typ>\<open>real\<close>: every arithmetic
  operation is exact, the rounding of IEEE doubles is not part of the model. The
  \<^verbatim>\<open>uint8\<close> channels of an image are \<^typ>\<open>8 word\<close>. Exceptions are values of the
  type \<open>error\<close>, and a function that can raise returns \<open>error + 'a\<close> with
  \<open>Inl\<close> for the exception.
\<close>

datatype error = ZeroDivisionError | ValueError | IndexError

text \<open>\<^verbatim>\<open>int(r)\<close> on a float truncates toward zero.\<close>

definition py_int :: "real \<Rightarrow> int" where
  "py_int r = (if 0 \<le> r then \<lfloor>r\<rfloor> else \<lceil>r\<rceil>)"

text \<open>\<^verbatim>\<open>a % b\<close> on floats: the remainder has the sign of the divisor.\<close>

definition py_fmod :: "real \<Rightarrow> real \<Rightarrow> real" where
  "py_fmod a b = a - b * of_int \<lfloor>a / b\<rfloor>"

text \<open>
  \<^verbatim>\<open>range(start, stop, step)\<close>: a zero step raises \<^verbatim>\<open>ValueError\<close>, a positive
  step counts up while the value is below \<open>stop\<close>, a negative step counts down while it
  is above.
\<close>

function range_up :: "int \<Rightarrow> int \<Rightarrow> int \<Rightarrow> int list" where
  "range_up i stop step =
     (if 0 < step \<and> i < stop then i # range_up (i + step) stop step else [])"
  by pat_completeness auto
termination
  by (relation "measure (\<lambda>(i, stop, step). nat (stop - i))") auto

function range_down :: "int \<Rightarrow> int \<Rightarrow> int \<Rightarrow> int list" where
  "range_down i stop step =
     (if step < 0 \<and> stop < i then i # range_down (i + step) stop step else [])"
  by pat_completeness auto
termination
  by (relation "measure (\<lambda>(i, stop, step). nat (i - stop))") auto

declare range_up.simps [simp del] range_down.simps [simp del]

definition py_range :: "int \<Rightarrow> int \<Rightarrow> int \<Rightarrow> error + int list" where
  "py_range start stop step =
     (if step = 0 then Inl ValueError
      else if 0 < step then Inr (range_up start stop step)
      else Inr (range_down start stop step))"

section \<open>The rule-of-thirds bump\<close>

text \<open>
  \<^verbatim>\<open>
  def thirds(x):
      x = ((x + 2 / 3) % 2 * 0.5 - 0.5) * 16
      return max(1 - x * x, 0)
  \<close>
\<close>

definition thirds :: "real \<Rightarrow> real" where
  "thirds v = (let x = (py_fmod (v + 2 / 3) 2 * 0.5 - 0.5) * 16 in max (1 - x * x) 0)"

section \<open>Configuration, crops and scores\<close>

text \<open>
  The attributes of a \<^verbatim>\<open>SmartCrop\<close> object that the analysis reads, with the
  defaults of \<^verbatim>\<open>__init__\<close>. The attribute \<^verbatim>\<open>boosts\<close>, which \<^verbatim>\<open>crop\<close> sets
  before it calls \<^verbatim>\<open>analyse\<close>, is passed as an argument instead.
\<close>

record config =
  detail_weight :: real
  edge_radius :: real
  edge_weight :: real
  outside_importance :: real
  rule_of_thirds :: bool
  saturation_bias :: real
  saturation_brightness_max :: real
  saturation_brightness_min :: real
  saturation_threshold :: real
  saturation_weight :: real
  boost_weight :: real
  score_down_sample :: int
  skin_bias :: real
  skin_brightness_max :: real
  skin_brightness_min :: real
  skin_color :: "real \<times> real \<times> real"
  skin_threshold :: real
  skin_weight :: real

definition default_config :: config where
  "default_config =
     \<lparr>detail_weight = 0.2, edge_radius = 0.4, edge_weight = - 20,
      outside_importance = - 0.5, rule_of_thirds = True, saturation_bias = 0.2,
      saturation_brightness_max = 0.9, saturation_brightness_min = 0.05,
      saturation_threshold = 0.4, saturation_weight = 0.3, boost_weight = 100,
      score_down_sample = 8, skin_bias = 0.01, skin_brightness_max = 1,
      skin_brightness_min = 0.2, skin_color = (0.78, 0.57, 0.44),
      skin_threshold = 0.8, skin_weight = 1.8\<rparr>"

text \<open>
  The score dictionary (keys \<^verbatim>\<open>detail\<close>, \<^verbatim>\<open>saturation\<close>, \<^verbatim>\<open>skin\<close>,
  \<^verbatim>\<open>boost\<close>, \<^verbatim>\<open>total\<close>) and the crop dictionary (keys \<^verbatim>\<open>x\<close>, \<^verbatim>\<open>y\<close>,
  \<^verbatim>\<open>width\<close>, \<^verbatim>\<open>height\<close> and, once scored, \<^verbatim>\<open>score\<close>). A crop's \<^verbatim>\<open>x\<close> and
  \<^verbatim>\<open>y\<close> are always integers; its width and height are floats until \<^verbatim>\<open>crop\<close>
  floors them.
\<close>

record score =
  s_detail :: real
  s_saturation :: real
  s_skin :: real
  s_boost :: real
  s_total :: real

record crop =
  c_x :: int
  c_y :: int
  c_width :: real
  c_height :: real
  c_score :: "score option"

section \<open>The importance field\<close>

text \<open>
  \<^verbatim>\<open>
  def importance(self, crop, x, y):
      if (crop['x'] > x or x >= crop['x'] + crop['width'] or
          crop['y'] > y or y >= crop['y'] + crop['height']):
          return self.outside_importance
      x = (x - crop['x']) / crop['width']
      y = (y - crop['y']) / crop['height']
      px, py = abs(0.5 - x) * 2, abs(0.5 - y) * 2
      dx = max(px - 1 + self.edge_radius, 0)
      dy = max(py - 1 + self.edge_radius, 0)
      d = (dx * dx + dy * dy) * self.edge_weight
      s = 1.41 - math.sqrt(px * px + py * py)
      if self.rule_of_thirds:
          s += (max(0, s + d + 0.5) * 1.2) * (thirds(px) + thirds(py))
      return s + d
  \<close>
  Past the guard the width and the height are positive (lemma \<open>in_crop_positive\<close>),
  so neither division can raise.
\<close>

definition importance :: "config \<Rightarrow> crop \<Rightarrow> int \<Rightarrow> int \<Rightarrow> real" where
  "importance cfg crop x y =
     (if real_of_int (c_x crop) > real_of_int x
         \<or> real_of_int x \<ge> real_of_int (c_x crop) + c_width crop
         \<or> real_of_int (c_y crop) > real_of_int y
         \<or> real_of_int y \<ge> real_of_int (c_y crop) + c_height crop
      then outside_importance cfg
      else
        let nx = real_of_int (x - c_x crop) / c_width crop;
            ny = real_of_int (y - c_y crop) / c_height crop;
            px = \<bar>0.5 - nx\<bar> * 2;
            py = \<bar>0.5 - ny\<bar> * 2;
            dx = max (px - 1 + edge_radius cfg) 0;
            dy = max (py - 1 + edge_radius cfg) 0;
            d = (dx * dx + dy * dy) * edge_weight cfg;
            s = 1.41 - sqrt (px * px + py * py);
            s' = (if rule_of_thirds cfg
                  then s + (max 0 (s + d + 0.5) * 1.2) * (thirds px + thirds py)
                  else s)
        in s' + d)"

text \<open>
  The half-open rectangle of a crop, as the specification words it:
  \<open>[x, x + width) \<times> [y, y + height)\<close>.
\<close>

definition in_crop :: "crop \<Rightarrow> int \<Rightarrow> int \<Rightarrow> bool" where
  "in_crop crop x y =
     (real_of_int (c_x crop) \<le> real_of_int x
      \<and> real_of_int x < real_of_int (c_x crop) + c_width crop
      \<and> real_of_int (c_y crop) \<le> real_of_int y
      \<and> real_of_int y < real_of_int (c_y crop) + c_height crop)"

section \<open>Images, the skin channel and the boost channel\<close>

text \<open>
  An image as the analysis sees it: its size and its RGB pixels, row by row. A pixel
  of the merged feature map has four \<^verbatim>\<open>uint8\<close> channels, in the order of
  \<^verbatim>\<open>Image.merge('RGBA', [skin_image, edge_image, saturation_image, boost_image])\<close>.
\<close>

record image =
  im_width :: nat
  im_height :: nat
  im_pixels :: "(8 word \<times> 8 word \<times> 8 word) list"

record timage =
  t_width :: nat
  t_height :: nat
  t_data :: "(8 word \<times> 8 word \<times> 8 word \<times> 8 word) list"

text \<open>
  \<^verbatim>\<open>detect_skin\<close>, for one pixel, up to the skin likelihood of line 328:
  \<^verbatim>\<open>
  rd = np.ones_like(r) * -self.skin_color[0]
  ...
  mag = np.sqrt(r * r + g * g + b * b)
  mask = ~(abs(mag) < 1e-6)
  rd[mask] = r[mask] / mag[mask] - self.skin_color[0]
  ...
  skin = 1 - np.sqrt(rd * rd + gd * gd + bd * bd)
  \<close>
  The division is done only where the mask holds; elsewhere the initial value stays.
\<close>

definition skin_mag :: "8 word \<times> 8 word \<times> 8 word \<Rightarrow> real" where
  "skin_mag p =
     (case p of (r8, g8, b8) \<Rightarrow>
        let r = real (unat r8); g = real (unat g8); b = real (unat b8)
        in sqrt (r * r + g * g + b * b))"

definition skin_displacement ::
  "config \<Rightarrow> 8 word \<times> 8 word \<times> 8 word \<Rightarrow> real \<times> real \<times> real" where
  "skin_displacement cfg p =
     (case p of (r8, g8, b8) \<Rightarrow>
        let r = real (unat r8); g = real (unat g8); b = real (unat b8);
            mag = skin_mag p;
            mask = (\<not> \<bar>mag\<bar> < 1 / 1000000);
            rd = (if mask then r / mag - fst (skin_color cfg) else - fst (skin_color cfg));
            gd = (if mask then g / mag - fst (snd (skin_color cfg))
                  else - fst (snd (skin_color cfg)));
            bd = (if mask then b / mag - snd (snd (skin_color cfg))
                  else - snd (snd (skin_color cfg)))
        in (rd, gd, bd))"

definition skin_distance :: "config \<Rightarrow> 8 word \<times> 8 word \<times> 8 word \<Rightarrow> real" where
  "skin_distance cfg p =
     (case skin_displacement cfg p of (rd, gd, bd) \<Rightarrow> sqrt (rd * rd + gd * gd + bd * bd))"

definition skin_likelihood :: "config \<Rightarrow> 8 word \<times> 8 word \<times> 8 word \<Rightarrow> real" where
  "skin_likelihood cfg p = 1 - skin_distance cfg p"

text \<open>
  The boost dictionary (keys \<^verbatim>\<open>x\<close>, \<^verbatim>\<open>y\<close>, \<^verbatim>\<open>width\<close>, \<^verbatim>\<open>height\<close>,
  \<^verbatim>\<open>weight\<close>).
\<close>

record boost =
  b_x :: real
  b_y :: real
  b_width :: real
  b_height :: real
  b_weight :: real








section \<open>Candidate generation\<close>

text \<open>
  \<^verbatim>\<open>
  def crops(self, image, crop_width, crop_height,
            max_scale=1, min_scale=0.9, scale_step=0.1, step=8):
      image_width, image_height = image.size
      crops = []
      for scale in (
          i / 100 for i in range(
              int(max_scale * 100),
              int((min_scale - scale_step) * 100),
              -int(scale_step * 100))
      ):
          for y in range(0, image_height, step):
              if y + crop_height * scale > image_height:
                  break
              for x in range(0, image_width, step):
                  if x + crop_width * scale > image_width:
                      break
                  crops.append({
                      'x': x,
                      'y': y,
                      'width': crop_width * scale,
                      'height': crop_height * scale,
                  })
      if not crops:
          raise ValueError(locals())
      return crops
  \<close>
  Each loop is a recursive function over the list its \<^verbatim>\<open>range\<close> yields; the list
  \<^verbatim>\<open>crops\<close> is threaded through as an accumulator, and \<^verbatim>\<open>break\<close> returns it.
\<close>

fun crops_x_loop ::
  "int \<Rightarrow> int \<Rightarrow> int \<Rightarrow> real \<Rightarrow> int \<Rightarrow> int list \<Rightarrow> crop list \<Rightarrow> crop list" where
  "crops_x_loop image_width crop_width crop_height scale y [] crops = crops"
| "crops_x_loop image_width crop_width crop_height scale y (x # xs) crops =
     (if real_of_int x + real_of_int crop_width * scale > real_of_int image_width
      then crops
      else crops_x_loop image_width crop_width crop_height scale y xs
             (crops @ [\<lparr>c_x = x, c_y = y,
                        c_width = real_of_int crop_width * scale,
                        c_height = real_of_int crop_height * scale,
                        c_score = None\<rparr>]))"

fun crops_y_loop ::
  "int \<Rightarrow> int \<Rightarrow> int \<Rightarrow> int \<Rightarrow> int \<Rightarrow> real \<Rightarrow> int list \<Rightarrow> crop list
   \<Rightarrow> error + crop list" where
  "crops_y_loop image_width image_height crop_width crop_height step scale [] crops =
     Inr crops"
| "crops_y_loop image_width image_height crop_width crop_height step scale (y # ys) crops =
     (if real_of_int y + real_of_int crop_height * scale > real_of_int image_height
      then Inr crops
      else case py_range 0 image_width step of
             Inl e \<Rightarrow> Inl e
           | Inr xs \<Rightarrow>
               crops_y_loop image_width image_height crop_width crop_height step scale ys
                 (crops_x_loop image_width crop_width crop_height scale y xs crops))"

fun crops_scale_loop ::
  "int \<Rightarrow> int \<Rightarrow> int \<Rightarrow> int \<Rightarrow> int \<Rightarrow> real list \<Rightarrow> crop list \<Rightarrow> error + crop list" where
  "crops_scale_loop image_width image_height crop_width crop_height step [] crops =
     Inr crops"
| "crops_scale_loop image_width image_height crop_width crop_height step (scale # scales) crops =
     (case py_range 0 image_height step of
        Inl e \<Rightarrow> Inl e
      | Inr ys \<Rightarrow>
          (case crops_y_loop image_width image_height crop_width crop_height step scale ys crops of
             Inl e \<Rightarrow> Inl e
           | Inr crops' \<Rightarrow>
               crops_scale_loop image_width image_height crop_width crop_height step
                 scales crops'))"

definition crops ::
  "image \<Rightarrow> int \<Rightarrow> int \<Rightarrow> real \<Rightarrow> real \<Rightarrow> real \<Rightarrow> int \<Rightarrow> error + crop list" where
  "crops img crop_width crop_height max_scale min_scale scale_step step =
     (let image_width = int (im_width img);
          image_height = int (im_height img)
      in case py_range (py_int (max_scale * 100))
                (py_int ((min_scale - scale_step) * 100))
                (- py_int (scale_step * 100)) of
           Inl e \<Rightarrow> Inl e
         | Inr is \<Rightarrow>
             (case crops_scale_loop image_width image_height crop_width crop_height step
                     (map (\<lambda>i. real_of_int i / 100) is) [] of
                Inl e \<Rightarrow> Inl e
              | Inr cs \<Rightarrow> if cs = [] then Inl ValueError else Inr cs))"

subsection \<open>The enumeration as the specification words it\<close>

text \<open>
  The scales: hundredths, from \<open>int(max_scale * 100)\<close> down in decrements of
  \<open>int(scale_step * 100)\<close>, as long as they stay above the exclusive boundary
  \<open>int((min_scale - scale_step) * 100)\<close>.
\<close>

definition spec_scales :: "real \<Rightarrow> real \<Rightarrow> real \<Rightarrow> real list" where
  "spec_scales max_scale min_scale scale_step =
     (let top = py_int (max_scale * 100);
          bound = py_int ((min_scale - scale_step) * 100);
          dec = py_int (scale_step * 100)
      in map (\<lambda>k. real_of_int (top - int k * dec) / 100)
           [0 ..< nat ((top - bound + dec - 1) div dec)])"



text \<open>
  The grid of scales and positions that the loops range over (empty where
  \<^verbatim>\<open>range\<close> refuses its step), and whether a crop at a grid position fits the image.
\<close>

definition grid_of :: "error + 'a list \<Rightarrow> 'a list" where
  "grid_of r = (case r of Inl e \<Rightarrow> [] | Inr xs \<Rightarrow> xs)"

definition grid_scales :: "real \<Rightarrow> real \<Rightarrow> real \<Rightarrow> real list" where
  "grid_scales max_scale min_scale scale_step =
     map (\<lambda>i. real_of_int i / 100)
       (grid_of (py_range (py_int (max_scale * 100))
                   (py_int ((min_scale - scale_step) * 100))
                   (- py_int (scale_step * 100))))"

definition grid_positions :: "nat \<Rightarrow> int \<Rightarrow> int list" where
  "grid_positions limit step = grid_of (py_range 0 (int limit) step)"


section \<open>Scoring a crop\<close>

text \<open>
  \<^verbatim>\<open>
  def score(self, target_image, crop):
      score = {'detail': 0, 'saturation': 0, 'skin': 0, 'boost': 0, 'total': 0}
      target_data = target_image.getdata()
      target_width, target_height = target_image.size
      down_sample = self.score_down_sample
      inv_down_sample = 1 / down_sample
      target_width_down_sample = target_width * down_sample
      target_height_down_sample = target_height * down_sample
      for y in range(0, target_height_down_sample, down_sample):
          for x in range(0, target_width_down_sample, down_sample):
              index = int(
                  math.floor(y * inv_down_sample) * target_width +
                  math.floor(x * inv_down_sample))
              importance = self.importance(crop, x, y)
              detail = target_data[index][1] / 255
              score['skin'] += (
                  target_data[index][0] / 255 * (detail + self.skin_bias) * importance)
              score['detail'] += detail * importance
              score['saturation'] += (
                  target_data[index][2] / 255 * (detail + self.saturation_bias) * importance)
              score['boost'] += (target_data[index][3] / 255 * importance)
      score['total'] = (
          score['detail'] * self.detail_weight +
          score['skin'] * self.skin_weight +
          score['saturation'] * self.saturation_weight +
          score['boost'] * self.boost_weight
      ) / (crop['width'] * crop['height'])
      return score
  \<close>
  The score dictionary is the state of the two loops. Reading \<^verbatim>\<open>target_data\<close>
  outside its length raises \<^verbatim>\<open>IndexError\<close>; dividing by zero raises
  \<^verbatim>\<open>ZeroDivisionError\<close>.
\<close>

definition score_index :: "config \<Rightarrow> timage \<Rightarrow> int \<Rightarrow> int \<Rightarrow> int" where
  "score_index cfg target_image x y =
     (let inv_down_sample = 1 / real_of_int (score_down_sample cfg)
      in \<lfloor>real_of_int y * inv_down_sample\<rfloor> * int (t_width target_image)
         + \<lfloor>real_of_int x * inv_down_sample\<rfloor>)"

definition score_cell ::
  "config \<Rightarrow> timage \<Rightarrow> crop \<Rightarrow> int \<Rightarrow> int \<Rightarrow> score \<Rightarrow> error + score" where
  "score_cell cfg target_image crop x y sc =
     (let index = score_index cfg target_image x y;
          imp = importance cfg crop x y
      in if index < 0 \<or> int (length (t_data target_image)) \<le> index then Inl IndexError
         else case t_data target_image ! nat index of
           (skin, edge, sat, boost) \<Rightarrow>
             let detail = real (unat edge) / 255
             in Inr \<lparr>s_detail = s_detail sc + detail * imp,
                     s_saturation = s_saturation sc
                        + real (unat sat) / 255 * (detail + saturation_bias cfg) * imp,
                     s_skin = s_skin sc
                        + real (unat skin) / 255 * (detail + skin_bias cfg) * imp,
                     s_boost = s_boost sc + real (unat boost) / 255 * imp,
                     s_total = s_total sc\<rparr>)"

fun score_x_loop ::
  "config \<Rightarrow> timage \<Rightarrow> crop \<Rightarrow> int \<Rightarrow> int list \<Rightarrow> score \<Rightarrow> error + score" where
  "score_x_loop cfg target_image crop y [] sc = Inr sc"
| "score_x_loop cfg target_image crop y (x # xs) sc =
     (case score_cell cfg target_image crop x y sc of
        Inl e \<Rightarrow> Inl e
      | Inr sc' \<Rightarrow> score_x_loop cfg target_image crop y xs sc')"

fun score_y_loop ::
  "config \<Rightarrow> timage \<Rightarrow> crop \<Rightarrow> int list \<Rightarrow> score \<Rightarrow> error + score" where
  "score_y_loop cfg target_image crop [] sc = Inr sc"
| "score_y_loop cfg target_image crop (y # ys) sc =
     (case py_range 0 (int (t_width target_image) * score_down_sample cfg)
             (score_down_sample cfg) of
        Inl e \<Rightarrow> Inl e
      | Inr xs \<Rightarrow>
          (case score_x_loop cfg target_image crop y xs sc of
             Inl e \<Rightarrow> Inl e
           | Inr sc' \<Rightarrow> score_y_loop cfg target_image crop ys sc'))"

definition score :: "config \<Rightarrow> timage \<Rightarrow> crop \<Rightarrow> error + score" where
  "score cfg target_image crop =
     (let down_sample = score_down_sample cfg
      in if down_sample = 0 then Inl ZeroDivisionError
         else
           case py_range 0 (int (t_height target_image) * down_sample) down_sample of
             Inl e \<Rightarrow> Inl e
           | Inr ys \<Rightarrow>
               (case score_y_loop cfg target_image crop ys
                       \<lparr>s_detail = 0, s_saturation = 0, s_skin = 0, s_boost = 0,
                        s_total = 0\<rparr> of
                  Inl e \<Rightarrow> Inl e
                | Inr sc \<Rightarrow>
                    if c_width crop * c_height crop = 0 then Inl ZeroDivisionError
                    else Inr (sc\<lparr>s_total :=
                           (s_detail sc * detail_weight cfg
                            + s_skin sc * skin_weight cfg
                            + s_saturation sc * saturation_weight cfg
                            + s_boost sc * boost_weight cfg)
                           / (c_width crop * c_height crop)\<rparr>)))"

subsection \<open>The accumulation as the specification words it\<close>

text \<open>
  The cell in column \<open>i\<close> and row \<open>j\<close> of the downsampled feature map, and what it adds
  to each accumulator: the importance is taken at the analysis-resolution point
  \<open>(i * D, j * D)\<close>, with \<open>D = score_down_sample\<close>.
\<close>

definition cell_at :: "timage \<Rightarrow> nat \<Rightarrow> nat \<Rightarrow> 8 word \<times> 8 word \<times> 8 word \<times> 8 word" where
  "cell_at target_image i j = t_data target_image ! (j * t_width target_image + i)"

definition cell_importance :: "config \<Rightarrow> crop \<Rightarrow> nat \<Rightarrow> nat \<Rightarrow> real" where
  "cell_importance cfg crop i j =
     importance cfg crop (int i * score_down_sample cfg) (int j * score_down_sample cfg)"

definition spec_detail :: "config \<Rightarrow> timage \<Rightarrow> crop \<Rightarrow> nat \<Rightarrow> nat \<Rightarrow> real" where
  "spec_detail cfg target_image crop i j =
     (case cell_at target_image i j of (skin, edge, sat, boost) \<Rightarrow>
        real (unat edge) / 255 * cell_importance cfg crop i j)"

definition spec_skin :: "config \<Rightarrow> timage \<Rightarrow> crop \<Rightarrow> nat \<Rightarrow> nat \<Rightarrow> real" where
  "spec_skin cfg target_image crop i j =
     (case cell_at target_image i j of (skin, edge, sat, boost) \<Rightarrow>
        real (unat skin) / 255 * (real (unat edge) / 255 + skin_bias cfg)
        * cell_importance cfg crop i j)"

definition spec_saturation :: "config \<Rightarrow> timage \<Rightarrow> crop \<Rightarrow> nat \<Rightarrow> nat \<Rightarrow> real" where
  "spec_saturation cfg target_image crop i j =
     (case cell_at target_image i j of (skin, edge, sat, boost) \<Rightarrow>
        real (unat sat) / 255 * (real (unat edge) / 255 + saturation_bias cfg)
        * cell_importance cfg crop i j)"

definition spec_boost :: "config \<Rightarrow> timage \<Rightarrow> crop \<Rightarrow> nat \<Rightarrow> nat \<Rightarrow> real" where
  "spec_boost cfg target_image crop i j =
     (case cell_at target_image i j of (skin, edge, sat, boost) \<Rightarrow>
        real (unat boost) / 255 * cell_importance cfg crop i j)"

text \<open>The sum of a per-cell quantity over every cell of the map, each counted once.\<close>

definition over_cells :: "timage \<Rightarrow> (nat \<Rightarrow> nat \<Rightarrow> real) \<Rightarrow> real" where
  "over_cells target_image f =
     (\<Sum>j < t_height target_image. \<Sum>i < t_width target_image. f i j)"

section \<open>Analysis and the top-level crop operation\<close>

text \<open>
  What the analysis takes from Pillow and numpy is a parameter of the model:
  \<open>thumbnail\<close> is \<^verbatim>\<open>Image.thumbnail\<close> (on a copy), and \<open>score_image\<close> is the
  pipeline of lines 96 to 117 of \<^verbatim>\<open>analyse\<close>, which extracts the four feature channels
  of an image (given the boosts) and downsamples them.
\<close>

record pil =
  thumbnail :: "image \<Rightarrow> int \<times> int \<Rightarrow> image"
  score_image :: "config \<Rightarrow> boost list option \<Rightarrow> image \<Rightarrow> timage"

text \<open>
  The dictionary \<^verbatim>\<open>analyse\<close> returns, without its \<^verbatim>\<open>analyse_image\<close>. The top crop
  is one of the dictionaries of the list \<^verbatim>\<open>crops\<close>, the same object, so it is kept
  as its index in that list: what \<^verbatim>\<open>crop\<close> later writes into the list's elements
  is written into the top crop too.
\<close>

record result =
  r_crops :: "crop list"
  r_top_crop :: "nat option"

definition top_crop :: "result \<Rightarrow> crop option" where
  "top_crop r = map_option (\<lambda>k. r_crops r ! k) (r_top_crop r)"

text \<open>\<^verbatim>\<open>sys.maxsize\<close> of a 64-bit platform.\<close>

definition sys_maxsize :: int where
  "sys_maxsize = 9223372036854775807"

text \<open>
  \<^verbatim>\<open>
  top_crop = None
  top_score = -sys.maxsize
  crops = self.crops(image, crop_width, crop_height, ...)
  for i, crop in enumerate(crops):
      crop['score'] = self.score(score_image, crop)
      if crop['score']['total'] > top_score:
          top_crop = crop
          top_score = crop['score']['total']
  return {'analyse_image': analyse_image, 'crops': crops, 'top_crop': top_crop}
  \<close>
  The loop's state is the list of the crops scored so far, the index of the top crop
  and the top score. Before it, the size of the downsampled map is computed as
  \<^verbatim>\<open>math.ceil(image.size[0] / self.score_down_sample)\<close>, which raises on a zero
  \<^verbatim>\<open>score_down_sample\<close>.
\<close>

fun analyse_loop ::
  "config \<Rightarrow> timage \<Rightarrow> crop list \<Rightarrow> nat \<Rightarrow> crop list \<Rightarrow> nat option \<Rightarrow> real
   \<Rightarrow> error + crop list \<times> nat option" where
  "analyse_loop cfg target [] i scored best top_score = Inr (scored, best)"
| "analyse_loop cfg target (crop # rest) i scored best top_score =
     (case score cfg target crop of
        Inl e \<Rightarrow> Inl e
      | Inr sc \<Rightarrow>
          if s_total sc > top_score
          then analyse_loop cfg target rest (Suc i)
                 (scored @ [crop\<lparr>c_score := Some sc\<rparr>]) (Some i) (s_total sc)
          else analyse_loop cfg target rest (Suc i)
                 (scored @ [crop\<lparr>c_score := Some sc\<rparr>]) best top_score)"

definition analyse ::
  "pil \<Rightarrow> config \<Rightarrow> boost list option \<Rightarrow> image \<Rightarrow> int \<Rightarrow> int \<Rightarrow> real \<Rightarrow> real \<Rightarrow> real
   \<Rightarrow> int \<Rightarrow> error + result" where
  "analyse env cfg boosts img crop_width crop_height max_scale min_scale scale_step step =
     (if score_down_sample cfg = 0 then Inl ZeroDivisionError
      else
        let target = score_image env cfg boosts img
        in case crops img crop_width crop_height max_scale min_scale scale_step step of
             Inl e \<Rightarrow> Inl e
           | Inr cs \<Rightarrow>
               (case analyse_loop cfg target cs 0 [] None (- real_of_int sys_maxsize) of
                  Inl e \<Rightarrow> Inl e
                | Inr (scored, best) \<Rightarrow> Inr \<lparr>r_crops = scored, r_top_crop = best\<rparr>))"

text \<open>
  \<^verbatim>\<open>
  def crop(self, image, width, height, prescale=True,
           max_scale=1, min_scale=0.9, scale_step=0.1, step=8, boosts=None):
      self.boosts = boosts
      scale = min(image.size[0] / width, image.size[1] / height)
      crop_width = int(math.floor(width * scale))
      crop_height = int(math.floor(height * scale))
      min_scale = min(max_scale, max(1 / scale, min_scale))
      prescale_size = 1
      if prescale:
          prescale_size = 1 / scale / min_scale
          if prescale_size < 1:
              image = image.copy()
              image.thumbnail(
                  (int(image.size[0] * prescale_size), int(image.size[1] * prescale_size)),
                  Image.Resampling.LANCZOS)
              crop_width = int(math.floor(crop_width * prescale_size))
              crop_height = int(math.floor(crop_height * prescale_size))
              if self.boosts is not None:
                  self.boosts = [{'x': boost['x'] * prescale_size, ...} for boost in self.boosts]
          else:
              prescale_size = 1
      result = self.analyse(image, crop_width=crop_width, crop_height=crop_height,
                            min_scale=min_scale, max_scale=max_scale,
                            scale_step=scale_step, step=step)
      for i in range(len(result['crops'])):
          crop = result['crops'][i]
          crop['x'] = int(math.floor(crop['x'] / prescale_size))
          crop['y'] = int(math.floor(crop['y'] / prescale_size))
          crop['width'] = int(math.floor(crop['width'] / prescale_size))
          crop['height'] = int(math.floor(crop['height'] / prescale_size))
          result['crops'][i] = crop
      return result
  \<close>
  Every division is guarded by the \<^verbatim>\<open>ZeroDivisionError\<close> it raises on a zero divisor.
  The last four divide by \<open>prescale_size\<close>, which is \<open>1\<close> or the quotient of two
  non-zero numbers, so they cannot raise.
\<close>

definition scale_boost :: "real \<Rightarrow> boost \<Rightarrow> boost" where
  "scale_boost prescale_size b =
     \<lparr>b_x = b_x b * prescale_size, b_y = b_y b * prescale_size,
      b_width = b_width b * prescale_size, b_height = b_height b * prescale_size,
      b_weight = b_weight b\<rparr>"

definition rescale_crop :: "real \<Rightarrow> crop \<Rightarrow> crop" where
  "rescale_crop prescale_size c =
     c\<lparr>c_x := \<lfloor>real_of_int (c_x c) / prescale_size\<rfloor>,
       c_y := \<lfloor>real_of_int (c_y c) / prescale_size\<rfloor>,
       c_width := real_of_int \<lfloor>c_width c / prescale_size\<rfloor>,
       c_height := real_of_int \<lfloor>c_height c / prescale_size\<rfloor>\<rparr>"

definition crop_rescaled ::
  "pil \<Rightarrow> config \<Rightarrow> boost list option \<Rightarrow> image \<Rightarrow> int \<Rightarrow> int \<Rightarrow> real \<Rightarrow> real \<Rightarrow> real
   \<Rightarrow> int \<Rightarrow> real \<Rightarrow> error + result" where
  "crop_rescaled env cfg boosts img crop_width crop_height max_scale min_scale scale_step step
     prescale_size =
     (case analyse env cfg boosts img crop_width crop_height max_scale min_scale scale_step
             step of
        Inl e \<Rightarrow> Inl e
      | Inr r \<Rightarrow> Inr (r\<lparr>r_crops := map (rescale_crop prescale_size) (r_crops r)\<rparr>))"

definition crop ::
  "pil \<Rightarrow> config \<Rightarrow> image \<Rightarrow> int \<Rightarrow> int \<Rightarrow> bool \<Rightarrow> real \<Rightarrow> real \<Rightarrow> real \<Rightarrow> int
   \<Rightarrow> boost list option \<Rightarrow> error + result" where
  "crop env cfg img width height prescale max_scale min_scale scale_step step boosts =
     (if width = 0 \<or> height = 0 then Inl ZeroDivisionError
      else
        let scale = min (real (im_width img) / real_of_int width)
                        (real (im_height img) / real_of_int height);
            crop_width = \<lfloor>real_of_int width * scale\<rfloor>;
            crop_height = \<lfloor>real_of_int height * scale\<rfloor>
        in if scale = 0 then Inl ZeroDivisionError
           else
             let min_scale' = min max_scale (max (1 / scale) min_scale)
             in if prescale
                then
                  if min_scale' = 0 then Inl ZeroDivisionError
                  else
                    let prescale_size = 1 / scale / min_scale'
                    in if prescale_size < 1
                       then crop_rescaled env cfg
                              (map_option (map (scale_boost prescale_size)) boosts)
                              (thumbnail env img
                                 (py_int (real (im_width img) * prescale_size),
                                  py_int (real (im_height img) * prescale_size)))
                              \<lfloor>real_of_int crop_width * prescale_size\<rfloor>
                              \<lfloor>real_of_int crop_height * prescale_size\<rfloor>
                              max_scale min_scale' scale_step step prescale_size
                       else crop_rescaled env cfg boosts img crop_width crop_height
                              max_scale min_scale' scale_step step 1
                else crop_rescaled env cfg boosts img crop_width crop_height
                       max_scale min_scale' scale_step step 1)"

text \<open>
  The contract of \<^verbatim>\<open>Image.thumbnail\<close> that the analysis relies on: the thumbnail is
  no larger than the requested box (of at least one pixel each way).
\<close>

definition thumbnail_within :: "pil \<Rightarrow> bool" where
  "thumbnail_within env =
     (\<forall>img w h. 1 \<le> w \<and> 1 \<le> h \<longrightarrow>
        int (im_width (thumbnail env img (w, h))) \<le> w
        \<and> int (im_height (thumbnail env img (w, h))) \<le> h)"

text \<open>
  An environment for running the model on examples: the thumbnail has exactly the
  requested size and keeps no pixels, and every feature channel is zero (the feature map
  of a black image), at the size \<^verbatim>\<open>analyse\<close> downsamples to.
\<close>

definition black_pil :: pil where
  "black_pil =
     \<lparr>thumbnail = (\<lambda>img box. \<lparr>im_width = nat (fst box), im_height = nat (snd box),
                                im_pixels = replicate (nat (fst box) * nat (snd box)) (0, 0, 0)\<rparr>),
      score_image = (\<lambda>cfg boosts img.
         \<lparr>t_width = nat \<lceil>real (im_width img) / real_of_int (score_down_sample cfg)\<rceil>,
          t_height = nat \<lceil>real (im_height img) / real_of_int (score_down_sample cfg)\<rceil>,
          t_data = replicate
            (nat \<lceil>real (im_width img) / real_of_int (score_down_sample cfg)\<rceil>
             * nat \<lceil>real (im_height img) / real_of_int (score_down_sample cfg)\<rceil>)
            (0, 0, 0, 0)\<rparr>)\<rparr>"

text \<open>
  The running best of the selection loop over a list of totals, on its own: the index
  of the top crop and the top score after the loop.
\<close>

fun running_best :: "real list \<Rightarrow> nat \<Rightarrow> nat option \<Rightarrow> real \<Rightarrow> nat option \<times> real" where
  "running_best [] i best top_score = (best, top_score)"
| "running_best (t # ts) i best top_score =
     (if t > top_score then running_best ts (Suc i) (Some i) t
      else running_best ts (Suc i) best top_score)"

section \<open>Properties: the rule-of-thirds bump\<close>

lemma thirds_at_0: "thirds 0 = 0"
  by (simp add: thirds_def py_fmod_def Let_def)

lemma thirds_at_two_thirds: "thirds (2 / 3) = 0"
  by (simp add: thirds_def py_fmod_def Let_def)

lemma thirds_at_four_thirds: "thirds (4 / 3) = 0"
  by (simp add: thirds_def py_fmod_def Let_def)

lemma thirds_at_one_third: "thirds (1 / 3) = 1"
  by (simp add: thirds_def py_fmod_def Let_def)

lemma thirds_le_1: "thirds v \<le> 1"
  by (simp add: thirds_def Let_def)

text \<open>
  Claim C7, as stated: \<open>thirds(0) = thirds(2/3) = thirds(4/3)\<close> and
  \<open>thirds(1/3) = 0\<close>. The last part fails: \<open>1/3\<close> is where the bump peaks.
\<close>

theorem thirds_one_third_not_zero:
  "\<not> (thirds 0 = thirds (2 / 3) \<and> thirds (2 / 3) = thirds (4 / 3) \<and> thirds (1 / 3) = 0)"
  by (simp add: thirds_at_one_third)

text \<open>
  Claim C7, amended: the bump is \<open>0\<close> at \<open>0\<close>, \<open>2/3\<close> and \<open>4/3\<close> (so the three
  values agree) and it is \<open>1\<close>, its maximum, at \<open>1/3\<close>.
\<close>

theorem thirds_values:
  "thirds 0 = 0 \<and> thirds (2 / 3) = 0 \<and> thirds (4 / 3) = 0 \<and> thirds (1 / 3) = 1
   \<and> thirds v \<le> 1"
  by (simp add: thirds_at_0 thirds_at_two_thirds thirds_at_four_thirds thirds_at_one_third
      thirds_le_1)

section \<open>Properties: the importance field\<close>

lemma in_crop_positive:
  "in_crop cr x y \<Longrightarrow> 0 < c_width cr \<and> 0 < c_height cr"
  by (auto simp: in_crop_def)






section \<open>Properties: the skin channel\<close>

lemma skin_mag_zero: "skin_mag (0, 0, 0) = 0"
  by (simp add: skin_mag_def)

lemma skin_mag_small:
  assumes "skin_mag p < 1 / 1000000" shows "p = (0, 0, 0)"
proof -
  obtain r g b where p: "p = (r, g, b)" by (cases p) auto
  let ?S = "real (unat r) * real (unat r) + real (unat g) * real (unat g)
            + real (unat b) * real (unat b)"
  have "sqrt ?S < 1 / 1000000"
    using assms by (simp add: p skin_mag_def Let_def)
  moreover have "0 \<le> sqrt ?S" by simp
  ultimately have "sqrt ?S < 1" by linarith
  then have "?S < 1"
    by (simp only: real_sqrt_lt_1_iff)
  then have "real (unat r * unat r + unat g * unat g + unat b * unat b) < 1"
    by simp
  then have "unat r * unat r + unat g * unat g + unat b * unat b = 0"
    by linarith
  then have "unat r = 0 \<and> unat g = 0 \<and> unat b = 0" by simp
  then show ?thesis by (simp add: p unat_eq_0)
qed

lemma skin_displacement_small:
  assumes "skin_mag p < 1 / 1000000"
  shows "skin_displacement cfg p
       = (- fst (skin_color cfg), - fst (snd (skin_color cfg)), - snd (snd (skin_color cfg)))"
proof -
  have "p = (0, 0, 0)" using assms by (rule skin_mag_small)
  then show ?thesis
    by (simp add: skin_displacement_def skin_mag_zero)
qed

text \<open>
  Claim C9, as stated: a pixel whose colour vector has magnitude below \<open>1e-6\<close> has
  zero displacement from the reference skin colour, distance \<open>0\<close> and likelihood
  \<open>1\<close>. The black pixel refutes it: its displacement is the negated reference colour.
\<close>

theorem skin_black_pixel_not_one:
  "skin_mag (0, 0, 0) < 1 / 1000000
   \<and> skin_displacement default_config (0, 0, 0) \<noteq> (0, 0, 0)
   \<and> skin_distance default_config (0, 0, 0) \<noteq> 0
   \<and> skin_likelihood default_config (0, 0, 0) \<noteq> 1"
  by (simp add: skin_likelihood_def skin_distance_def skin_displacement_def skin_mag_zero
      default_config_def)

text \<open>
  Claim C9, amended: a pixel whose colour vector has magnitude below \<open>1e-6\<close> (only
  the black pixel) keeps the initial fallback displacement, the negated reference skin
  colour; its distance is the norm of the reference colour and its likelihood before
  masking is one minus that norm. The function is total: the division by the magnitude
  is not evaluated for such a pixel.
\<close>

theorem skin_small_magnitude:
  assumes "skin_mag p < 1 / 1000000"
  shows "skin_displacement cfg p
         = (- fst (skin_color cfg), - fst (snd (skin_color cfg)), - snd (snd (skin_color cfg)))
       \<and> skin_distance cfg p
         = sqrt (fst (skin_color cfg) * fst (skin_color cfg)
                 + fst (snd (skin_color cfg)) * fst (snd (skin_color cfg))
                 + snd (snd (skin_color cfg)) * snd (snd (skin_color cfg)))
       \<and> skin_likelihood cfg p
         = 1 - sqrt (fst (skin_color cfg) * fst (skin_color cfg)
                 + fst (snd (skin_color cfg)) * fst (snd (skin_color cfg))
                 + snd (snd (skin_color cfg)) * snd (snd (skin_color cfg)))"
  by (simp add: skin_likelihood_def skin_distance_def skin_displacement_small[OF assms])

theorem skin_small_magnitude_witness:
  "skin_mag (0, 0, 0) < 1 / 1000000
   \<and> skin_displacement default_config (0, 0, 0) = (- 0.78, - 0.57, - 0.44)
   \<and> skin_likelihood default_config (0, 0, 0)
     = 1 - sqrt (0.78 * 0.78 + 0.57 * 0.57 + 0.44 * 0.44)"
  using skin_small_magnitude[of "(0, 0, 0)" default_config]
  by (simp add: skin_mag_zero default_config_def)

section \<open>Properties: the boost channel\<close>

















section \<open>Properties: candidate generation\<close>

lemma range_up_eq:
  "0 < step \<Longrightarrow>
   range_up i stop step
   = map (\<lambda>k. i + int k * step) [0 ..< nat ((stop - i + step - 1) div step)]"
proof (induction i stop step rule: range_up.induct)
  case (1 i stop step)
  show ?case
  proof (cases "i < stop")
    case True
    define n where "n = nat ((stop - (i + step) + step - 1) div step)"
    have "0 \<le> (stop - i - 1) div step"
      using True "1.prems" by (simp add: pos_imp_zdiv_nonneg_iff)
    moreover have "(stop - i + step - 1) div step = (stop - i - 1) div step + 1"
    proof -
      have "stop - i + step - 1 = (stop - i - 1) + step" by simp
      then show ?thesis
        using "1.prems" by (simp only: div_add_self2)
    qed
    ultimately have n: "nat ((stop - i + step - 1) div step) = Suc n"
      by (simp add: n_def nat_add_distrib algebra_simps)
    have "range_up i stop step = i # range_up (i + step) stop step"
      using True "1.prems" by (subst range_up.simps) simp
    also have "range_up (i + step) stop step = map (\<lambda>k. i + step + int k * step) [0 ..< n]"
      using "1.IH" True "1.prems" by (simp add: n_def)
    finally show ?thesis
      unfolding n by (simp add: map_upt_Suc algebra_simps del: upt_Suc)
  next
    case False
    then have "stop - i + step - 1 < step" by simp
    then have "(stop - i + step - 1) div step \<le> 0"
      using "1.prems" by (smt (verit) div_neg_pos_less0 div_pos_pos_trivial)
    then show ?thesis
      using False by (subst range_up.simps) simp
  qed
qed


lemma range_down_eq:
  "0 < dec \<Longrightarrow>
   range_down i stop (- dec)
   = map (\<lambda>k. i - int k * dec) [0 ..< nat ((i - stop + dec - 1) div dec)]"
proof (induction i stop "- dec" rule: range_down.induct)
  case (1 i stop)
  show ?case
  proof (cases "stop < i")
    case True
    define n where "n = nat ((i - dec - stop + dec - 1) div dec)"
    have "0 \<le> (i - stop - 1) div dec"
      using True "1.prems" by (simp add: pos_imp_zdiv_nonneg_iff)
    moreover have "(i - stop + dec - 1) div dec = (i - stop - 1) div dec + 1"
    proof -
      have "i - stop + dec - 1 = (i - stop - 1) + dec" by simp
      then show ?thesis
        using "1.prems" by (simp only: div_add_self2)
    qed
    ultimately have n: "nat ((i - stop + dec - 1) div dec) = Suc n"
      by (simp add: n_def nat_add_distrib algebra_simps)
    have "range_down i stop (- dec) = i # range_down (i + - dec) stop (- dec)"
      using True "1.prems" by (subst range_down.simps) simp
    also have "range_down (i + - dec) stop (- dec) = map (\<lambda>k. i - dec - int k * dec) [0 ..< n]"
      using "1.hyps" True "1.prems" by (simp add: n_def)
    finally show ?thesis
      unfolding n by (simp add: map_upt_Suc algebra_simps del: upt_Suc)
  next
    case False
    then have "i - stop + dec - 1 < dec" by simp
    then have "(i - stop + dec - 1) div dec \<le> 0"
      using "1.prems" by (smt (verit) div_neg_pos_less0 div_pos_pos_trivial)
    then show ?thesis
      using False by (subst range_down.simps) simp
  qed
qed

lemma crops_x_loop_eq:
  "crops_x_loop image_width crop_width crop_height scale y xs acc
   = acc @ map (\<lambda>x. \<lparr>c_x = x, c_y = y,
                    c_width = real_of_int crop_width * scale,
                    c_height = real_of_int crop_height * scale,
                    c_score = None\<rparr>)
           (takeWhile (\<lambda>x. \<not> real_of_int x + real_of_int crop_width * scale
                               > real_of_int image_width) xs)"
  by (induction xs arbitrary: acc) simp_all

lemma crops_y_loop_eq:
  assumes "py_range 0 image_width step = Inr xs"
  shows "crops_y_loop image_width image_height crop_width crop_height step scale ys acc
   = Inr (acc @ concat (map (\<lambda>y.
         map (\<lambda>x. \<lparr>c_x = x, c_y = y,
                    c_width = real_of_int crop_width * scale,
                    c_height = real_of_int crop_height * scale,
                    c_score = None\<rparr>)
           (takeWhile (\<lambda>x. \<not> real_of_int x + real_of_int crop_width * scale
                               > real_of_int image_width) xs))
         (takeWhile (\<lambda>y. \<not> real_of_int y + real_of_int crop_height * scale
                             > real_of_int image_height) ys)))"
  by (induction ys arbitrary: acc) (simp_all add: assms crops_x_loop_eq)

lemma crops_scale_loop_eq:
  assumes "py_range 0 image_width step = Inr xs" and "py_range 0 image_height step = Inr ys"
  shows "crops_scale_loop image_width image_height crop_width crop_height step scales acc
   = Inr (acc @ concat (map (\<lambda>scale. concat (map (\<lambda>y.
         map (\<lambda>x. \<lparr>c_x = x, c_y = y,
                    c_width = real_of_int crop_width * scale,
                    c_height = real_of_int crop_height * scale,
                    c_score = None\<rparr>)
           (takeWhile (\<lambda>x. \<not> real_of_int x + real_of_int crop_width * scale
                               > real_of_int image_width) xs))
         (takeWhile (\<lambda>y. \<not> real_of_int y + real_of_int crop_height * scale
                             > real_of_int image_height) ys))) scales))"
  by (induction scales arbitrary: acc) (simp_all add: assms crops_y_loop_eq[OF assms(1)])


lemma py_range_scales:
  assumes "0 < py_int (scale_step * 100)"
  shows "map (\<lambda>i. real_of_int i / 100)
           (grid_of (py_range (py_int (max_scale * 100))
                   (py_int ((min_scale - scale_step) * 100))
                   (- py_int (scale_step * 100))))
         = spec_scales max_scale min_scale scale_step"
  using assms
  by (simp add: py_range_def grid_of_def spec_scales_def Let_def range_down_eq o_def)



lemma grid_positions_first:
  assumes "y \<in> set (grid_positions limit step)"
  shows "0 \<le> y \<and> hd (grid_positions limit step) = 0"
proof -
  consider "step = 0" | "0 < step" | "step < 0" by linarith
  then show ?thesis
  proof cases
    case 1
    with assms show ?thesis by (simp add: grid_positions_def grid_of_def py_range_def)
  next
    case 2
    then have g: "grid_positions limit step
          = map (\<lambda>k. int k * step) [0 ..< nat ((int limit + step - 1) div step)]"
      by (simp add: grid_positions_def grid_of_def py_range_def range_up_eq)
    with assms 2 have "0 \<le> y" by auto
    moreover from assms g have "0 < nat ((int limit + step - 1) div step)" by auto
    then have "hd (grid_positions limit step) = 0"
      unfolding g by (simp add: hd_map upt_conv_Cons)
    ultimately show ?thesis by simp
  next
    case 3
    then have "grid_positions limit step = []"
      by (simp add: grid_positions_def grid_of_def py_range_def range_down.simps)
    with assms show ?thesis by simp
  qed
qed



lemma crops_scale_loop_step0:
  "crops_scale_loop image_width image_height crop_width crop_height 0 scales []
   = (if scales = [] then Inr [] else Inl ValueError)"
  by (cases scales) (simp_all add: py_range_def)


lemma py_range_grid: "step \<noteq> 0 \<Longrightarrow> py_range 0 (int limit) step = Inr (grid_positions limit step)"
  by (simp add: grid_positions_def grid_of_def py_range_def)




lemma crops_enumeration:
  assumes "crops img cw ch maxs mins ss step = Inr cs"
  shows "cs = concat (map (\<lambda>scale. concat (map (\<lambda>y.
         map (\<lambda>x. \<lparr>c_x = x, c_y = y,
                    c_width = real_of_int cw * scale,
                    c_height = real_of_int ch * scale,
                    c_score = None\<rparr>)
           (takeWhile (\<lambda>x. \<not> real_of_int x + real_of_int cw * scale
                               > real_of_int (int (im_width img)))
              (grid_positions (im_width img) step)))
         (takeWhile (\<lambda>y. \<not> real_of_int y + real_of_int ch * scale
                             > real_of_int (int (im_height img)))
            (grid_positions (im_height img) step))))
       (grid_scales maxs mins ss))"
proof -
  from assms obtain hs where r: "py_range (py_int (maxs * 100))
                (py_int ((mins - ss) * 100)) (- py_int (ss * 100)) = Inr hs"
    by (auto simp: crops_def Let_def split: sum.splits)
  then have gs: "grid_scales maxs mins ss = map (\<lambda>i. real_of_int i / 100) hs"
    by (simp add: grid_scales_def grid_of_def)
  have loop: "crops_scale_loop (int (im_width img)) (int (im_height img)) cw ch step
      (map (\<lambda>i. real_of_int i / 100) hs) [] = Inr cs" and ne: "cs \<noteq> []"
    using assms unfolding crops_def Let_def r
    by (auto split: sum.splits if_splits)
  have "step \<noteq> 0"
  proof
    assume "step = 0"
    with loop ne show False
      by (simp add: crops_scale_loop_step0 split: if_splits)
  qed
  from loop show ?thesis
    unfolding gs
      crops_scale_loop_eq[OF py_range_grid[OF \<open>step \<noteq> 0\<close>] py_range_grid[OF \<open>step \<noteq> 0\<close>]]
    by simp
qed

lemma crops_geometry:
  assumes "crops img cw ch maxs mins ss step = Inr cs" and "c \<in> set cs"
  shows "0 \<le> c_x c \<and> 0 \<le> c_y c
       \<and> real_of_int (c_x c) + c_width c \<le> real (im_width img)
       \<and> real_of_int (c_y c) + c_height c \<le> real (im_height img)
       \<and> (\<exists>scale. c_width c = real_of_int cw * scale \<and> c_height c = real_of_int ch * scale)"
proof -
  from assms(2) obtain scale y x where
    y: "y \<in> set (takeWhile (\<lambda>y. \<not> real_of_int y + real_of_int ch * scale
                             > real_of_int (int (im_height img)))
            (grid_positions (im_height img) step))"
    and x: "x \<in> set (takeWhile (\<lambda>x. \<not> real_of_int x + real_of_int cw * scale
                               > real_of_int (int (im_width img)))
              (grid_positions (im_width img) step))"
    and c: "c = \<lparr>c_x = x, c_y = y,
                    c_width = real_of_int cw * scale,
                    c_height = real_of_int ch * scale,
                    c_score = None\<rparr>"
    unfolding crops_enumeration[OF assms(1)] by auto
  from y have "y \<in> set (grid_positions (im_height img) step)"
      "\<not> real_of_int y + real_of_int ch * scale > real_of_int (int (im_height img))"
    by (auto dest: set_takeWhileD)
  moreover from x have "x \<in> set (grid_positions (im_width img) step)"
      "\<not> real_of_int x + real_of_int cw * scale > real_of_int (int (im_width img))"
    by (auto dest: set_takeWhileD)
  ultimately show ?thesis
    using grid_positions_first[of y "im_height img" step]
      grid_positions_first[of x "im_width img" step]
    by (auto simp: c)
qed

section \<open>Properties: scoring\<close>

lemma cell_index_bound:
  fixes i j w h :: nat
  assumes "i < w" and "j < h"
  shows "j * w + i < w * h"
proof -
  have "j * w + i < j * w + w" using assms(1) by simp
  also have "\<dots> = Suc j * w" by simp
  also have "\<dots> \<le> h * w" using assms(2) by (intro mult_le_mono1) simp
  finally show ?thesis by (simp add: mult.commute)
qed

lemma score_index_cell:
  assumes "0 < score_down_sample cfg" and "i < t_width t"
  shows "score_index cfg t (int i * score_down_sample cfg) (int j * score_down_sample cfg)
       = int (j * t_width t + i)"
  using assms by (simp add: score_index_def)

lemma score_cell_eq:
  assumes "0 < score_down_sample cfg" and "i < t_width t" and "j < t_height t"
    and "length (t_data t) = t_width t * t_height t"
  shows "score_cell cfg t cr (int i * score_down_sample cfg) (int j * score_down_sample cfg) sc
       = Inr \<lparr>s_detail = s_detail sc + spec_detail cfg t cr i j,
              s_saturation = s_saturation sc + spec_saturation cfg t cr i j,
              s_skin = s_skin sc + spec_skin cfg t cr i j,
              s_boost = s_boost sc + spec_boost cfg t cr i j,
              s_total = s_total sc\<rparr>"
proof -
  let ?k = "j * t_width t + i"
  have k: "?k < length (t_data t)"
    using cell_index_bound[OF assms(2,3)] assms(4) by simp
  obtain skin edge sat boost where px: "t_data t ! ?k = (skin, edge, sat, boost)"
    by (cases "t_data t ! ?k") auto
  have g: "(int ?k < 0 \<or> int (length (t_data t)) \<le> int ?k) = False"
    using k by (simp del: of_nat_add of_nat_mult)
  show ?thesis
    unfolding score_cell_def score_index_cell[OF assms(1,2)] Let_def
    by (simp only: g if_False nat_int px prod.case spec_detail_def spec_skin_def
        spec_saturation_def spec_boost_def cell_at_def cell_importance_def)
qed

lemma score_x_loop_eq:
  assumes "0 < score_down_sample cfg" and "j < t_height t"
    and "length (t_data t) = t_width t * t_height t"
    and "\<forall>i\<in>set ks. i < t_width t"
  shows "score_x_loop cfg t cr (int j * score_down_sample cfg)
           (map (\<lambda>i. int i * score_down_sample cfg) ks) sc
       = Inr \<lparr>s_detail = s_detail sc + sum_list (map (\<lambda>i. spec_detail cfg t cr i j) ks),
              s_saturation = s_saturation sc
                 + sum_list (map (\<lambda>i. spec_saturation cfg t cr i j) ks),
              s_skin = s_skin sc + sum_list (map (\<lambda>i. spec_skin cfg t cr i j) ks),
              s_boost = s_boost sc + sum_list (map (\<lambda>i. spec_boost cfg t cr i j) ks),
              s_total = s_total sc\<rparr>"
  using assms(4)
proof (induction ks arbitrary: sc)
  case Nil
  then show ?case by simp
next
  case (Cons k ks)
  then have k: "k < t_width t" and ks: "\<forall>i\<in>set ks. i < t_width t" by simp_all
  show ?case
    by (simp add: score_cell_eq[OF assms(1) k assms(2,3)] Cons.IH[OF ks] add.assoc)
qed

lemma range_cells:
  assumes "0 < D"
  shows "py_range 0 (int n * D) D = Inr (map (\<lambda>i. int i * D) [0 ..< n])"
proof -
  have "int n * D + D - 1 = (D - 1) + int n * D" by simp
  then have "(int n * D + D - 1) div D = (D - 1) div D + int n"
    using assms by (simp only: div_mult_self1)
  also have "(D - 1) div D = 0"
    using assms by (simp add: div_pos_pos_trivial)
  finally have "nat ((int n * D - 0 + D - 1) div D) = n" by simp
  then show ?thesis
    using assms by (simp add: py_range_def range_up_eq)
qed

lemma sum_list_cells: "sum_list (map f [0 ..< n]) = (\<Sum>i < n. f i)"
  by (simp add: interv_sum_list_conv_sum_set_nat atLeast0LessThan)

lemma score_y_loop_eq:
  assumes "0 < score_down_sample cfg"
    and "length (t_data t) = t_width t * t_height t"
    and "\<forall>j\<in>set ls. j < t_height t"
  shows "score_y_loop cfg t cr (map (\<lambda>j. int j * score_down_sample cfg) ls) sc
       = Inr \<lparr>s_detail = s_detail sc
                 + sum_list (map (\<lambda>j. \<Sum>i < t_width t. spec_detail cfg t cr i j) ls),
              s_saturation = s_saturation sc
                 + sum_list (map (\<lambda>j. \<Sum>i < t_width t. spec_saturation cfg t cr i j) ls),
              s_skin = s_skin sc
                 + sum_list (map (\<lambda>j. \<Sum>i < t_width t. spec_skin cfg t cr i j) ls),
              s_boost = s_boost sc
                 + sum_list (map (\<lambda>j. \<Sum>i < t_width t. spec_boost cfg t cr i j) ls),
              s_total = s_total sc\<rparr>"
  using assms(3)
proof (induction ls arbitrary: sc)
  case Nil
  then show ?case by simp
next
  case (Cons l ls)
  then have l: "l < t_height t" and ls: "\<forall>j\<in>set ls. j < t_height t" by simp_all
  have row: "\<forall>i\<in>set [0 ..< t_width t]. i < t_width t" by simp
  show ?case
    by (simp add: range_cells[OF assms(1)] score_x_loop_eq[OF assms(1) l assms(2) row]
        Cons.IH[OF ls] sum_list_cells add.assoc)
qed

lemma score_sums:
  assumes "0 < score_down_sample cfg"
    and "length (t_data t) = t_width t * t_height t"
    and "c_width cr * c_height cr \<noteq> 0"
  shows "score cfg t cr
       = Inr \<lparr>s_detail = over_cells t (spec_detail cfg t cr),
              s_saturation = over_cells t (spec_saturation cfg t cr),
              s_skin = over_cells t (spec_skin cfg t cr),
              s_boost = over_cells t (spec_boost cfg t cr),
              s_total =
                (over_cells t (spec_detail cfg t cr) * detail_weight cfg
                 + over_cells t (spec_skin cfg t cr) * skin_weight cfg
                 + over_cells t (spec_saturation cfg t cr) * saturation_weight cfg
                 + over_cells t (spec_boost cfg t cr) * boost_weight cfg)
                / (c_width cr * c_height cr)\<rparr>"
proof -
  have rows: "\<forall>j\<in>set [0 ..< t_height t]. j < t_height t" by simp
  show ?thesis
    using assms(1,3)
    by (simp add: score_def Let_def range_cells[OF assms(1)]
        score_y_loop_eq[OF assms(1,2) rows] sum_list_cells over_cells_def)
qed

lemma score_black:
  assumes "0 < score_down_sample cfg"
    and "t_data t = replicate (t_width t * t_height t) (0, 0, 0, 0)"
    and "c_width cr * c_height cr \<noteq> 0"
  shows "score cfg t cr
       = Inr \<lparr>s_detail = 0, s_saturation = 0, s_skin = 0, s_boost = 0, s_total = 0\<rparr>"
proof -
  have len: "length (t_data t) = t_width t * t_height t"
    by (simp add: assms(2))
  have cell: "cell_at t i j = (0, 0, 0, 0)" if "i < t_width t" and "j < t_height t" for i j
    using cell_index_bound[OF that] by (simp add: cell_at_def assms(2))
  have "over_cells t (spec_detail cfg t cr) = 0"
    "over_cells t (spec_saturation cfg t cr) = 0"
    "over_cells t (spec_skin cfg t cr) = 0"
    "over_cells t (spec_boost cfg t cr) = 0"
    by (simp_all add: over_cells_def spec_detail_def spec_saturation_def spec_skin_def
        spec_boost_def cell)
  then show ?thesis
    by (simp add: score_sums[OF assms(1) len assms(3)])
qed

lemma score_black_pil:
  assumes "0 < score_down_sample cfg" and "c_width cr * c_height cr \<noteq> 0"
  shows "score cfg (score_image black_pil cfg boosts img) cr
       = Inr \<lparr>s_detail = 0, s_saturation = 0, s_skin = 0, s_boost = 0, s_total = 0\<rparr>"
  using assms by (intro score_black) (simp_all add: black_pil_def)



section \<open>Properties: the selection of the top crop\<close>

lemma running_best_first_max:
  assumes "running_best ts i best b = (best', b')"
  shows "if \<exists>t\<in>set ts. b < t
         then \<exists>k<length ts. best' = Some (i + k) \<and> ts ! k = Max (set ts)
                \<and> (\<forall>j<k. ts ! j < ts ! k)
         else best' = best"
  using assms
proof (induction ts arbitrary: i best b)
  case Nil
  then show ?case by simp
next
  case (Cons t ts)
  show ?case
  proof (cases "b < t")
    case True
    then have rb: "running_best ts (Suc i) (Some i) t = (best', b')"
      using Cons.prems by simp
    note ih = Cons.IH[OF rb]
    show ?thesis
    proof (cases "\<exists>u\<in>set ts. t < u")
      case above: True
      with ih obtain k where k: "k < length ts" "best' = Some (Suc i + k)"
        "ts ! k = Max (set ts)" "\<forall>j<k. ts ! j < ts ! k"
        by auto
      from above k(3) have gt: "t < ts ! k"
        by (metis List.finite_set Max_ge dual_order.strict_trans1)
      have "ts \<noteq> []" using k(1) by auto
      then have "Max (set (t # ts)) = ts ! k"
        using k(3) gt by (simp add: max_def)
      moreover have "\<forall>j<Suc k. (t # ts) ! j < ts ! k"
        using k(4) gt by (auto simp: less_Suc_eq_0_disj)
      ultimately have "Suc k < length (t # ts) \<and> best' = Some (i + Suc k)
          \<and> (t # ts) ! Suc k = Max (set (t # ts))
          \<and> (\<forall>j<Suc k. (t # ts) ! j < (t # ts) ! Suc k)"
        using k(1,2) by simp
      then show ?thesis using True by (metis list.set_intros(1))
    next
      case none: False
      with ih have "best' = Some i" by simp
      moreover have "Max (set (t # ts)) = t"
        using none by (intro Max_eqI) (auto simp: not_less)
      ultimately have "0 < length (t # ts) \<and> best' = Some (i + 0)
          \<and> (t # ts) ! 0 = Max (set (t # ts)) \<and> (\<forall>j<0. (t # ts) ! j < (t # ts) ! 0)"
        by simp
      then show ?thesis using True by (metis list.set_intros(1))
    qed
  next
    case False
    then have rb: "running_best ts (Suc i) best b = (best', b')"
      using Cons.prems by simp
    note ih = Cons.IH[OF rb]
    have same: "(\<exists>u\<in>set (t # ts). b < u) = (\<exists>u\<in>set ts. b < u)"
      using False by auto
    show ?thesis
    proof (cases "\<exists>u\<in>set ts. b < u")
      case above: True
      with ih obtain k where k: "k < length ts" "best' = Some (Suc i + k)"
        "ts ! k = Max (set ts)" "\<forall>j<k. ts ! j < ts ! k"
        by auto
      from above k(3) have "b < ts ! k"
        by (metis List.finite_set Max_ge dual_order.strict_trans1)
      with False have gt: "t < ts ! k" by simp
      have "ts \<noteq> []" using k(1) by auto
      then have "Max (set (t # ts)) = ts ! k"
        using k(3) gt by (simp add: max_def)
      moreover have "\<forall>j<Suc k. (t # ts) ! j < ts ! k"
        using k(4) gt by (auto simp: less_Suc_eq_0_disj)
      ultimately have "Suc k < length (t # ts) \<and> best' = Some (i + Suc k)
          \<and> (t # ts) ! Suc k = Max (set (t # ts))
          \<and> (\<forall>j<Suc k. (t # ts) ! j < (t # ts) ! Suc k)"
        using k(1,2) by simp
      then show ?thesis unfolding same using above by (metis (no_types, lifting))
    next
      case none: False
      with ih have "best' = best" by simp
      then show ?thesis unfolding same using none by simp
    qed
  qed
qed

lemma analyse_loop_result:
  assumes "analyse_loop cfg t cs i scored best b = Inr (scored', best')"
  shows "\<exists>scs. length scs = length cs
           \<and> (\<forall>k<length cs. score cfg t (cs ! k) = Inr (scs ! k))
           \<and> scored' = scored @ map2 (\<lambda>c sc. c\<lparr>c_score := Some sc\<rparr>) cs scs
           \<and> best' = fst (running_best (map s_total scs) i best b)"
  using assms
proof (induction cs arbitrary: i scored best b)
  case Nil
  then show ?case by simp
next
  case (Cons c cs)
  from Cons.prems obtain sc where sc: "score cfg t c = Inr sc"
    by (auto split: sum.splits)
  let ?scored = "scored @ [c\<lparr>c_score := Some sc\<rparr>]"
  let ?best = "if s_total sc > b then Some i else best"
  let ?b = "if s_total sc > b then s_total sc else b"
  have "analyse_loop cfg t cs (Suc i) ?scored ?best ?b = Inr (scored', best')"
    using Cons.prems sc by (simp split: if_splits)
  from Cons.IH[OF this] obtain scs where scs: "length scs = length cs"
    "\<forall>k<length cs. score cfg t (cs ! k) = Inr (scs ! k)"
    "scored' = ?scored @ map2 (\<lambda>c sc. c\<lparr>c_score := Some sc\<rparr>) cs scs"
    "best' = fst (running_best (map s_total scs) (Suc i) ?best ?b)"
    by blast
  have "length (sc # scs) = length (c # cs)" using scs(1) by simp
  moreover have "\<forall>k<length (c # cs). score cfg t ((c # cs) ! k) = Inr ((sc # scs) ! k)"
    using sc scs(2) by (auto simp: less_Suc_eq_0_disj)
  moreover have "scored' = scored @ map2 (\<lambda>c sc. c\<lparr>c_score := Some sc\<rparr>) (c # cs) (sc # scs)"
    using scs(3) by simp
  moreover have "best' = fst (running_best (map s_total (sc # scs)) i best b)"
    using scs(4) by simp
  ultimately show ?case by blast
qed

lemma analyse_result:
  assumes "analyse env cfg boosts img cw ch maxs mins ss step = Inr r"
  shows "\<exists>cs scs. crops img cw ch maxs mins ss step = Inr cs \<and> length scs = length cs
      \<and> (\<forall>k<length cs. score cfg (score_image env cfg boosts img) (cs ! k) = Inr (scs ! k))
      \<and> r_crops r = map2 (\<lambda>c sc. c\<lparr>c_score := Some sc\<rparr>) cs scs
      \<and> (if \<exists>t\<in>set (map s_total scs). - real_of_int sys_maxsize < t
         then \<exists>k<length (map s_total scs). r_top_crop r = Some k
                \<and> map s_total scs ! k = Max (set (map s_total scs))
                \<and> (\<forall>j<k. map s_total scs ! j < map s_total scs ! k)
         else r_top_crop r = None)"
proof -
  from assms obtain cs where cs: "crops img cw ch maxs mins ss step = Inr cs"
    by (auto simp: analyse_def Let_def split: sum.splits if_splits)
  from assms cs obtain scored best where
    loop: "analyse_loop cfg (score_image env cfg boosts img) cs 0 [] None
             (- real_of_int sys_maxsize) = Inr (scored, best)"
    and r: "r = \<lparr>r_crops = scored, r_top_crop = best\<rparr>"
    by (auto simp: analyse_def Let_def split: sum.splits prod.splits if_splits)
  from analyse_loop_result[OF loop] obtain scs where scs: "length scs = length cs"
    "\<forall>k<length cs. score cfg (score_image env cfg boosts img) (cs ! k) = Inr (scs ! k)"
    "scored = map2 (\<lambda>c sc. c\<lparr>c_score := Some sc\<rparr>) cs scs"
    "best = fst (running_best (map s_total scs) 0 None (- real_of_int sys_maxsize))"
    by auto
  obtain b' where rb: "running_best (map s_total scs) 0 None (- real_of_int sys_maxsize)
      = (best, b')"
    using scs(4) by (cases "running_best (map s_total scs) 0 None (- real_of_int sys_maxsize)") simp
  have top: "r_top_crop r = best" by (simp add: r)
  have sel: "if \<exists>t\<in>set (map s_total scs). - real_of_int sys_maxsize < t
         then \<exists>k<length (map s_total scs). r_top_crop r = Some k
                \<and> map s_total scs ! k = Max (set (map s_total scs))
                \<and> (\<forall>j<k. map s_total scs ! j < map s_total scs ! k)
         else r_top_crop r = None"
    using running_best_first_max[OF rb] unfolding top by (simp only: add_0)
  have rc: "r_crops r = map2 (\<lambda>c sc. c\<lparr>c_score := Some sc\<rparr>) cs scs"
    using scs(3) r by simp
  show ?thesis
    by (intro exI[of _ cs] exI[of _ scs] conjI) (rule cs scs(1) scs(2) rc sel)+
qed


lemma default_down_sample: "score_down_sample default_config = 8"
  by (simp add: default_config_def)

lemma crops_8:
  "crops \<lparr>im_width = 8, im_height = 8, im_pixels = replicate 64 (0, 0, 0)\<rparr> 8 8 1 0.9 0.1 8
   = Inr [\<lparr>c_x = 0, c_y = 0, c_width = 8, c_height = 8, c_score = None\<rparr>,
          \<lparr>c_x = 0, c_y = 0, c_width = 7.2, c_height = 7.2, c_score = None\<rparr>]"
  by (simp add: crops_def py_range_def range_up.simps range_down.simps py_int_def)

lemma analyse_8:
  "analyse black_pil default_config None
     \<lparr>im_width = 8, im_height = 8, im_pixels = replicate 64 (0, 0, 0)\<rparr> 8 8 1 0.9 0.1 8
   = Inr \<lparr>r_crops =
            [\<lparr>c_x = 0, c_y = 0, c_width = 8, c_height = 8,
              c_score = Some \<lparr>s_detail = 0, s_saturation = 0, s_skin = 0, s_boost = 0,
                              s_total = 0\<rparr>\<rparr>,
             \<lparr>c_x = 0, c_y = 0, c_width = 7.2, c_height = 7.2,
              c_score = Some \<lparr>s_detail = 0, s_saturation = 0, s_skin = 0, s_boost = 0,
                              s_total = 0\<rparr>\<rparr>],
          r_top_crop = Some 0\<rparr>"
proof -
  have d: "0 < score_down_sample default_config" by (simp add: default_config_def)
  have s: "c_width cr * c_height cr \<noteq> 0 \<Longrightarrow>
    score default_config (score_image black_pil default_config None img) cr
       = Inr \<lparr>s_detail = 0, s_saturation = 0, s_skin = 0, s_boost = 0, s_total = 0\<rparr>"
    for cr img
    by (rule score_black_pil[OF d])
  show ?thesis
    using d by (simp add: analyse_def crops_8 s sys_maxsize_def)
qed





lemma score_area:
  "score cfg t c = Inr sc \<Longrightarrow> c_width c * c_height c \<noteq> 0"
  by (auto simp: score_def Let_def split: if_splits sum.splits)

lemma analyse_geometry:
  assumes "analyse env cfg boosts img cw ch maxs mins ss step = Inr r"
    and "c \<in> set (r_crops r)"
  shows "0 \<le> c_x c \<and> 0 \<le> c_y c
       \<and> real_of_int (c_x c) + c_width c \<le> real (im_width img)
       \<and> real_of_int (c_y c) + c_height c \<le> real (im_height img)
       \<and> (\<exists>scale. c_width c = real_of_int cw * scale \<and> c_height c = real_of_int ch * scale)
       \<and> c_width c * c_height c \<noteq> 0"
proof -
  from analyse_result[OF assms(1)] obtain cs scs where
    cs: "crops img cw ch maxs mins ss step = Inr cs" and len: "length scs = length cs"
    and sc: "\<forall>k<length cs. score cfg (score_image env cfg boosts img) (cs ! k) = Inr (scs ! k)"
    and rc: "r_crops r = map2 (\<lambda>c sc. c\<lparr>c_score := Some sc\<rparr>) cs scs"
    by blast
  from assms(2) obtain k where k: "k < length cs" and c: "c = (cs ! k)\<lparr>c_score := Some (scs ! k)\<rparr>"
    unfolding rc using len by (auto simp: in_set_conv_nth)
  have "cs ! k \<in> set cs" using k by simp
  from crops_geometry[OF cs this] score_area[OF sc[rule_format, OF k]]
  show ?thesis by (simp add: c)
qed

lemma analyse_top_index:
  assumes "analyse env cfg boosts img cw ch maxs mins ss step = Inr r"
    and "r_top_crop r = Some k"
  shows "k < length (r_crops r)"
proof -
  from analyse_result[OF assms(1)] obtain cs scs where
    len: "length scs = length cs"
    and rc: "r_crops r = map2 (\<lambda>c sc. c\<lparr>c_score := Some sc\<rparr>) cs scs"
    and sel: "if \<exists>t\<in>set (map s_total scs). - real_of_int sys_maxsize < t
         then \<exists>k<length (map s_total scs). r_top_crop r = Some k
                \<and> map s_total scs ! k = Max (set (map s_total scs))
                \<and> (\<forall>j<k. map s_total scs ! j < map s_total scs ! k)
         else r_top_crop r = None"
    by blast
  from sel assms(2) have "k < length scs"
    by (auto split: if_splits)
  then show ?thesis using len by (simp add: rc)
qed

section \<open>Properties: the top-level crop operation\<close>

lemma crop_zero_target:
  "width = 0 \<or> height = 0 \<Longrightarrow>
   crop env cfg img width height prescale max_scale min_scale scale_step step boosts
   = Inl ZeroDivisionError"
  by (simp add: crop_def)

lemma crop_zero_area:
  assumes "im_width img = 0 \<or> im_height img = 0" and "0 < width" and "0 < height"
  shows "crop env cfg img width height prescale max_scale min_scale scale_step step boosts
   = Inl ZeroDivisionError"
proof -
  have "0 \<le> real (im_width img) / real_of_int width"
    "0 \<le> real (im_height img) / real_of_int height"
    using assms(2,3) by simp_all
  moreover have "real (im_width img) / real_of_int width = 0
      \<or> real (im_height img) / real_of_int height = 0"
    using assms(1) by auto
  ultimately have "min (real (im_width img) / real_of_int width)
            (real (im_height img) / real_of_int height) = 0"
    by linarith
  then show ?thesis
    using assms(2,3) by (simp add: crop_def)
qed

lemma crops_100:
  "crops \<lparr>im_width = 100, im_height = 100, im_pixels = replicate 10000 (0, 0, 0)\<rparr>
     100 100 1 0.9 0.1 100
   = Inr [\<lparr>c_x = 0, c_y = 0, c_width = 100, c_height = 100, c_score = None\<rparr>,
          \<lparr>c_x = 0, c_y = 0, c_width = 90, c_height = 90, c_score = None\<rparr>]"
  by (simp add: crops_def py_range_def range_up.simps range_down.simps py_int_def)

lemma score_black_default:
  "c_width cr * c_height cr \<noteq> 0 \<Longrightarrow>
    score default_config (score_image black_pil default_config boosts img) cr
       = Inr \<lparr>s_detail = 0, s_saturation = 0, s_skin = 0, s_boost = 0, s_total = 0\<rparr>"
  by (rule score_black_pil) (simp_all add: default_config_def)

text \<open>
  Claim C8, as stated, has every target width or height \<open>\<le> 0\<close> rejected before the
  analysis. Nothing in \<^verbatim>\<open>crop\<close> validates its arguments: with prescaling off, the
  targets \<open>-50\<close> by \<open>-50\<close> on a black 100 by 100 image give the scale \<open>-2\<close>, the crop
  size 100 by 100, and a result.
\<close>

theorem crop_negative_target_returns:
  "crop black_pil default_config
     \<lparr>im_width = 100, im_height = 100, im_pixels = replicate 10000 (0, 0, 0)\<rparr>
     (- 50) (- 50) False 1 0.9 0.1 100 None
   = Inr \<lparr>r_crops =
            [\<lparr>c_x = 0, c_y = 0, c_width = 100, c_height = 100,
              c_score = Some \<lparr>s_detail = 0, s_saturation = 0, s_skin = 0, s_boost = 0,
                              s_total = 0\<rparr>\<rparr>,
             \<lparr>c_x = 0, c_y = 0, c_width = 90, c_height = 90,
              c_score = Some \<lparr>s_detail = 0, s_saturation = 0, s_skin = 0, s_boost = 0,
                              s_total = 0\<rparr>\<rparr>],
          r_top_crop = Some 0\<rparr>"
proof -
  have a: "analyse black_pil default_config None
     \<lparr>im_width = 100, im_height = 100, im_pixels = replicate 10000 (0, 0, 0)\<rparr>
     100 100 1 0.9 0.1 100
   = Inr \<lparr>r_crops =
            [\<lparr>c_x = 0, c_y = 0, c_width = 100, c_height = 100,
              c_score = Some \<lparr>s_detail = 0, s_saturation = 0, s_skin = 0, s_boost = 0,
                              s_total = 0\<rparr>\<rparr>,
             \<lparr>c_x = 0, c_y = 0, c_width = 90, c_height = 90,
              c_score = Some \<lparr>s_detail = 0, s_saturation = 0, s_skin = 0, s_boost = 0,
                              s_total = 0\<rparr>\<rparr>],
          r_top_crop = Some 0\<rparr>"
    by (simp add: analyse_def crops_100 score_black_default sys_maxsize_def
        default_down_sample)
  show ?thesis
    by (simp add: crop_def crop_rescaled_def a rescale_crop_def)
qed

text \<open>
  Claim C8, amended: a target width or height of \<open>0\<close>, and a zero-area image with
  positive targets, raise \<^verbatim>\<open>ZeroDivisionError\<close> in the first lines of \<^verbatim>\<open>crop\<close>,
  whatever the analysis would do (the result does not depend on the environment).
\<close>

theorem crop_degenerate:
  "(width = 0 \<or> height = 0 \<longrightarrow>
      crop env cfg img width height prescale max_scale min_scale scale_step step boosts
      = Inl ZeroDivisionError)
   \<and> ((im_width img' = 0 \<or> im_height img' = 0) \<and> 0 < width' \<and> 0 < height' \<longrightarrow>
      crop env cfg img' width' height' prescale max_scale min_scale scale_step step boosts
      = Inl ZeroDivisionError)"
  by (simp add: crop_zero_target crop_zero_area)

theorem crop_degenerate_witness:
  "crop black_pil default_config
     \<lparr>im_width = 100, im_height = 100, im_pixels = replicate 10000 (0, 0, 0)\<rparr>
     0 50 True 1 0.9 0.1 8 None = Inl ZeroDivisionError
   \<and> crop black_pil default_config
     \<lparr>im_width = 0, im_height = 100, im_pixels = []\<rparr>
     50 50 True 1 0.9 0.1 8 None = Inl ZeroDivisionError"
  using crop_degenerate
    [of 0 50 black_pil default_config
        "\<lparr>im_width = 100, im_height = 100, im_pixels = replicate 10000 (0, 0, 0)\<rparr>"
        True 1 "0.9" "0.1" 8 None
        "\<lparr>im_width = 0, im_height = 100, im_pixels = []\<rparr>" 50 50]
  by simp

lemma rescale_bounds:
  assumes "0 < ps" and "0 \<le> c_x c" and "0 \<le> c_y c"
    and "real_of_int (c_x c) + c_width c \<le> W'"
    and "real_of_int (c_y c) + c_height c \<le> H'"
    and "W' \<le> W * ps" and "H' \<le> H * ps"
  shows "0 \<le> c_x (rescale_crop ps c) \<and> 0 \<le> c_y (rescale_crop ps c)
       \<and> real_of_int (c_x (rescale_crop ps c)) + c_width (rescale_crop ps c) \<le> W
       \<and> real_of_int (c_y (rescale_crop ps c)) + c_height (rescale_crop ps c) \<le> H
       \<and> c_width (rescale_crop ps c) \<in> \<int> \<and> c_height (rescale_crop ps c) \<in> \<int>"
proof -
  have fl: "real_of_int \<lfloor>a\<rfloor> + real_of_int \<lfloor>b\<rfloor> \<le> a + b" for a b :: real
    by (simp add: add_mono)
  have "(real_of_int (c_x c) + c_width c) / ps \<le> W"
    using assms(1,4,6) by (simp add: divide_le_eq)
  then have x: "real_of_int \<lfloor>real_of_int (c_x c) / ps\<rfloor> + real_of_int \<lfloor>c_width c / ps\<rfloor> \<le> W"
    using fl[of "real_of_int (c_x c) / ps" "c_width c / ps"] by (simp add: add_divide_distrib)
  have "(real_of_int (c_y c) + c_height c) / ps \<le> H"
    using assms(1,5,7) by (simp add: divide_le_eq)
  then have y: "real_of_int \<lfloor>real_of_int (c_y c) / ps\<rfloor> + real_of_int \<lfloor>c_height c / ps\<rfloor> \<le> H"
    using fl[of "real_of_int (c_y c) / ps" "c_height c / ps"] by (simp add: add_divide_distrib)
  have "0 \<le> \<lfloor>real_of_int (c_x c) / ps\<rfloor>" "0 \<le> \<lfloor>real_of_int (c_y c) / ps\<rfloor>"
    using assms(1,2,3) by simp_all
  then show ?thesis
    using x y by (simp add: rescale_crop_def)
qed

lemma crop_rescaled_bounds:
  assumes "crop_rescaled env cfg boosts img' cw ch maxs mins ss step ps = Inr r"
    and "0 < ps"
    and "(real (im_width img') \<le> W * ps \<and> real (im_height img') \<le> H * ps)
         \<or> cw = 0 \<or> ch = 0"
    and "c \<in> set (r_crops r)"
  shows "0 \<le> c_x c \<and> 0 \<le> c_y c
       \<and> real_of_int (c_x c) + c_width c \<le> W
       \<and> real_of_int (c_y c) + c_height c \<le> H
       \<and> c_width c \<in> \<int> \<and> c_height c \<in> \<int>"
proof -
  from assms(1) obtain r0 where
    a: "analyse env cfg boosts img' cw ch maxs mins ss step = Inr r0"
    and r: "r = r0\<lparr>r_crops := map (rescale_crop ps) (r_crops r0)\<rparr>"
    by (auto simp: crop_rescaled_def split: sum.splits)
  from assms(4) obtain c0 where c0: "c0 \<in> set (r_crops r0)" and c: "c = rescale_crop ps c0"
    by (auto simp: r)
  note g = analyse_geometry[OF a c0]
  from g have "cw \<noteq> 0 \<and> ch \<noteq> 0" by auto
  with assms(3) have "real (im_width img') \<le> W * ps" "real (im_height img') \<le> H * ps"
    by auto
  with g show ?thesis
    unfolding c by (intro rescale_bounds[OF assms(2)]) simp_all
qed

lemma crop_rescaled_top:
  assumes "crop_rescaled env cfg boosts img' cw ch maxs mins ss step ps = Inr r"
    and "r_top_crop r = Some k"
  shows "k < length (r_crops r)"
proof -
  from assms(1) obtain r0 where
    a: "analyse env cfg boosts img' cw ch maxs mins ss step = Inr r0"
    and r: "r = r0\<lparr>r_crops := map (rescale_crop ps) (r_crops r0)\<rparr>"
    by (auto simp: crop_rescaled_def split: sum.splits)
  from assms(2) have "r_top_crop r0 = Some k" by (simp add: r)
  from analyse_top_index[OF a this] show ?thesis by (simp add: r)
qed

lemma crop_cases:
  assumes "crop env cfg img width height prescale max_scale min_scale scale_step step boosts
           = Inr r"
    and "0 < width" and "0 < height" and "0 < max_scale"
  defines "scale \<equiv> min (real (im_width img) / real_of_int width)
                        (real (im_height img) / real_of_int height)"
  defines "min' \<equiv> min max_scale (max (1 / scale) min_scale)"
  defines "ps \<equiv> 1 / scale / min'"
  shows "0 < scale \<and> 0 < min' \<and> 0 < ps
       \<and> (if prescale \<and> ps < 1
          then crop_rescaled env cfg (map_option (map (scale_boost ps)) boosts)
                 (thumbnail env img
                    (py_int (real (im_width img) * ps), py_int (real (im_height img) * ps)))
                 \<lfloor>real_of_int \<lfloor>real_of_int width * scale\<rfloor> * ps\<rfloor>
                 \<lfloor>real_of_int \<lfloor>real_of_int height * scale\<rfloor> * ps\<rfloor>
                 max_scale min' scale_step step ps = Inr r
          else crop_rescaled env cfg boosts img
                 \<lfloor>real_of_int width * scale\<rfloor> \<lfloor>real_of_int height * scale\<rfloor>
                 max_scale min' scale_step step 1 = Inr r)"
proof -
  have nonneg: "0 \<le> scale"
    using assms(2,3) by (simp add: scale_def)
  have nz: "scale \<noteq> 0"
    using assms(1,2,3) unfolding crop_def Let_def scale_def[symmetric]
    by (auto split: if_splits)
  with nonneg have pos: "0 < scale" by simp
  then have "0 < 1 / scale" by simp
  then have "0 < max (1 / scale) min_scale" by (simp add: less_max_iff_disj)
  then have mpos: "0 < min'"
    using assms(4) by (simp add: min'_def)
  then have ppos: "0 < ps"
    using pos by (simp add: ps_def)
  have "if prescale \<and> ps < 1
          then crop_rescaled env cfg (map_option (map (scale_boost ps)) boosts)
                 (thumbnail env img
                    (py_int (real (im_width img) * ps), py_int (real (im_height img) * ps)))
                 \<lfloor>real_of_int \<lfloor>real_of_int width * scale\<rfloor> * ps\<rfloor>
                 \<lfloor>real_of_int \<lfloor>real_of_int height * scale\<rfloor> * ps\<rfloor>
                 max_scale min' scale_step step ps = Inr r
          else crop_rescaled env cfg boosts img
                 \<lfloor>real_of_int width * scale\<rfloor> \<lfloor>real_of_int height * scale\<rfloor>
                 max_scale min' scale_step step 1 = Inr r"
    using assms(1,2,3) nz mpos
    unfolding crop_def Let_def scale_def[symmetric] min'_def[symmetric] ps_def[symmetric]
    by (auto split: if_splits)
  with pos mpos ppos show ?thesis by simp
qed

lemma crop_bounds:
  assumes ret: "crop env cfg img width height prescale max_scale min_scale scale_step step boosts
           = Inr r"
    and w: "0 < width" and h: "0 < height" and ms: "0 < max_scale"
    and th: "thumbnail_within env"
    and c: "c \<in> set (r_crops r)"
  shows "0 \<le> c_x c \<and> 0 \<le> c_y c
       \<and> real_of_int (c_x c) + c_width c \<le> real (im_width img)
       \<and> real_of_int (c_y c) + c_height c \<le> real (im_height img)
       \<and> c_width c \<in> \<int> \<and> c_height c \<in> \<int>"
proof -
  define scale where "scale = min (real (im_width img) / real_of_int width)
                        (real (im_height img) / real_of_int height)"
  define min' where "min' = min max_scale (max (1 / scale) min_scale)"
  define ps where "ps = 1 / scale / min'"
  define cw where "cw = \<lfloor>real_of_int width * scale\<rfloor>"
  define ch where "ch = \<lfloor>real_of_int height * scale\<rfloor>"
  note cases = crop_cases[OF ret w h ms, folded scale_def, folded min'_def, folded ps_def,
      folded cw_def ch_def]
  then have pos: "0 < scale" and ppos: "0 < ps" by simp_all
  have "real_of_int width * scale \<le> real_of_int width * (real (im_width img) / real_of_int width)"
    using w by (intro mult_left_mono) (simp_all add: scale_def)
  then have cw_le: "real_of_int cw \<le> real (im_width img)"
    using w unfolding cw_def by (simp add: floor_le_iff) linarith
  have "real_of_int height * scale \<le> real_of_int height * (real (im_height img) / real_of_int height)"
    using h by (intro mult_left_mono) (simp_all add: scale_def)
  then have ch_le: "real_of_int ch \<le> real (im_height img)"
    using h unfolding ch_def by (simp add: floor_le_iff) linarith
  have cw_ge: "0 \<le> cw" using w pos by (simp add: cw_def)
  have ch_ge: "0 \<le> ch" using h pos by (simp add: ch_def)
  show ?thesis
  proof (cases "prescale \<and> ps < 1")
    case False
    with cases have run: "crop_rescaled env cfg boosts img cw ch max_scale min' scale_step step 1
        = Inr r"
      by simp
    show ?thesis
      by (rule crop_rescaled_bounds[OF run _ _ c]) simp_all
  next
    case True
    let ?bw = "py_int (real (im_width img) * ps)"
    let ?bh = "py_int (real (im_height img) * ps)"
    let ?img = "thumbnail env img (?bw, ?bh)"
    from True cases have run: "crop_rescaled env cfg (map_option (map (scale_boost ps)) boosts)
        ?img \<lfloor>real_of_int cw * ps\<rfloor> \<lfloor>real_of_int ch * ps\<rfloor> max_scale min' scale_step step ps
        = Inr r"
      by simp
    have bw: "?bw = \<lfloor>real (im_width img) * ps\<rfloor>" and bh: "?bh = \<lfloor>real (im_height img) * ps\<rfloor>"
      using ppos by (simp_all add: py_int_def)
    have fit: "(real (im_width ?img) \<le> real (im_width img) * ps
                \<and> real (im_height ?img) \<le> real (im_height img) * ps)
          \<or> \<lfloor>real_of_int cw * ps\<rfloor> = 0 \<or> \<lfloor>real_of_int ch * ps\<rfloor> = 0"
    proof (cases "1 \<le> ?bw \<and> 1 \<le> ?bh")
      case True
      with th have "int (im_width ?img) \<le> ?bw" "int (im_height ?img) \<le> ?bh"
        unfolding thumbnail_within_def by blast+
      then have "real (im_width ?img) \<le> real_of_int ?bw" "real (im_height ?img) \<le> real_of_int ?bh"
        by linarith+
      moreover have "real_of_int ?bw \<le> real (im_width img) * ps"
        "real_of_int ?bh \<le> real (im_height img) * ps"
        unfolding bw bh by simp_all
      ultimately show ?thesis by linarith
    next
      case False
      then consider "?bw < 1" | "?bh < 1" by linarith
      then show ?thesis
      proof cases
        case 1
        then have "real (im_width img) * ps < 1"
          unfolding bw by (simp add: floor_less_iff)
        moreover have "real_of_int cw * ps \<le> real (im_width img) * ps"
          using cw_le ppos by (simp add: mult_right_mono)
        moreover have "0 \<le> real_of_int cw * ps"
          using cw_ge ppos by simp
        ultimately have "\<lfloor>real_of_int cw * ps\<rfloor> = 0"
          by (simp add: floor_eq_iff)
        then show ?thesis by simp
      next
        case 2
        then have "real (im_height img) * ps < 1"
          unfolding bh by (simp add: floor_less_iff)
        moreover have "real_of_int ch * ps \<le> real (im_height img) * ps"
          using ch_le ppos by (simp add: mult_right_mono)
        moreover have "0 \<le> real_of_int ch * ps"
          using ch_ge ppos by simp
        ultimately have "\<lfloor>real_of_int ch * ps\<rfloor> = 0"
          by (simp add: floor_eq_iff)
        then show ?thesis by simp
      qed
    qed
    show ?thesis
      by (rule crop_rescaled_bounds[OF run ppos fit c])
  qed
qed

lemma crop_top_index:
  assumes "crop env cfg img width height prescale max_scale min_scale scale_step step boosts
           = Inr r"
    and "0 < width" and "0 < height" and "0 < max_scale"
    and "r_top_crop r = Some k"
  shows "k < length (r_crops r)"
  using crop_cases[OF assms(1-4)] assms(5)
  by (auto split: if_splits dest: crop_rescaled_top)

lemma black_pil_thumbnail: "thumbnail_within black_pil"
  by (simp add: thumbnail_within_def black_pil_def)

lemma crop_16:
  "crop black_pil default_config \<lparr>im_width = 16, im_height = 16, im_pixels = replicate 256 (0, 0, 0)\<rparr> 8 8 True 1 0.9 0.1 8 None
   = Inr \<lparr>r_crops =
            [\<lparr>c_x = 0, c_y = 0, c_width = 14, c_height = 14,
              c_score = Some \<lparr>s_detail = 0, s_saturation = 0, s_skin = 0, s_boost = 0, s_total = 0\<rparr>\<rparr>,
             \<lparr>c_x = 0, c_y = 0, c_width = 12, c_height = 12,
              c_score = Some \<lparr>s_detail = 0, s_saturation = 0, s_skin = 0, s_boost = 0, s_total = 0\<rparr>\<rparr>],
          r_top_crop = Some 0\<rparr>"
proof -
  have t: "thumbnail black_pil \<lparr>im_width = 16, im_height = 16, im_pixels = replicate 256 (0, 0, 0)\<rparr> (8, 8)
      = \<lparr>im_width = 8, im_height = 8, im_pixels = replicate 64 (0, 0, 0)\<rparr>"
    by (simp add: black_pil_def)
  show ?thesis
    by (simp add: crop_def crop_rescaled_def py_int_def t analyse_8 rescale_crop_def)
qed

text \<open>
  Claim C2: for positive target width and height (and a positive \<open>max_scale\<close>, with a
  thumbnail that is no larger than the box asked for), every crop rectangle that
  \<^verbatim>\<open>crop\<close> returns, rescaled to the original resolution and floored to integers, lies
  inside the original image; the top crop is one of these rectangles.
\<close>

theorem crop_within_bounds:
  assumes "crop env cfg img width height prescale max_scale min_scale scale_step step boosts
           = Inr r"
    and "0 < width" and "0 < height" and "0 < max_scale"
    and "thumbnail_within env"
  shows "(\<forall>c\<in>set (r_crops r).
            0 \<le> c_x c \<and> 0 \<le> c_y c
            \<and> real_of_int (c_x c) + c_width c \<le> real (im_width img)
            \<and> real_of_int (c_y c) + c_height c \<le> real (im_height img)
            \<and> c_width c \<in> \<int> \<and> c_height c \<in> \<int>)
       \<and> (\<forall>c. top_crop r = Some c \<longrightarrow> c \<in> set (r_crops r))"
proof (intro conjI ballI allI impI)
  fix c assume "c \<in> set (r_crops r)"
  from crop_bounds[OF assms this]
  show "0 \<le> c_x c" "0 \<le> c_y c"
    "real_of_int (c_x c) + c_width c \<le> real (im_width img)"
    "real_of_int (c_y c) + c_height c \<le> real (im_height img)"
    "c_width c \<in> \<int>" "c_height c \<in> \<int>"
    by simp_all
next
  fix c assume "top_crop r = Some c"
  then obtain k where k: "r_top_crop r = Some k" and c: "c = r_crops r ! k"
    by (auto simp: top_crop_def)
  from crop_top_index[OF assms(1-4) k] show "c \<in> set (r_crops r)"
    by (simp add: c)
qed

theorem crop_within_bounds_witness:
  "crop black_pil default_config \<lparr>im_width = 16, im_height = 16, im_pixels = replicate 256 (0, 0, 0)\<rparr> 8 8 True 1 0.9 0.1 8 None
   = Inr \<lparr>r_crops =
            [\<lparr>c_x = 0, c_y = 0, c_width = 14, c_height = 14,
              c_score = Some \<lparr>s_detail = 0, s_saturation = 0, s_skin = 0, s_boost = 0, s_total = 0\<rparr>\<rparr>,
             \<lparr>c_x = 0, c_y = 0, c_width = 12, c_height = 12,
              c_score = Some \<lparr>s_detail = 0, s_saturation = 0, s_skin = 0, s_boost = 0, s_total = 0\<rparr>\<rparr>],
          r_top_crop = Some 0\<rparr>
   \<and> thumbnail_within black_pil
   \<and> list_all (\<lambda>c. 0 \<le> c_x c \<and> 0 \<le> c_y c
            \<and> real_of_int (c_x c) + c_width c \<le> 16
            \<and> real_of_int (c_y c) + c_height c \<le> 16)
        (r_crops \<lparr>r_crops =
            [\<lparr>c_x = 0, c_y = 0, c_width = 14, c_height = 14,
              c_score = Some \<lparr>s_detail = 0, s_saturation = 0, s_skin = 0, s_boost = 0, s_total = 0\<rparr>\<rparr>,
             \<lparr>c_x = 0, c_y = 0, c_width = 12, c_height = 12,
              c_score = Some \<lparr>s_detail = 0, s_saturation = 0, s_skin = 0, s_boost = 0, s_total = 0\<rparr>\<rparr>],
          r_top_crop = Some 0\<rparr>)
   \<and> top_crop \<lparr>r_crops =
            [\<lparr>c_x = 0, c_y = 0, c_width = 14, c_height = 14,
              c_score = Some \<lparr>s_detail = 0, s_saturation = 0, s_skin = 0, s_boost = 0, s_total = 0\<rparr>\<rparr>,
             \<lparr>c_x = 0, c_y = 0, c_width = 12, c_height = 12,
              c_score = Some \<lparr>s_detail = 0, s_saturation = 0, s_skin = 0, s_boost = 0, s_total = 0\<rparr>\<rparr>],
          r_top_crop = Some 0\<rparr>
     = Some \<lparr>c_x = 0, c_y = 0, c_width = 14, c_height = 14,
              c_score = Some \<lparr>s_detail = 0, s_saturation = 0, s_skin = 0, s_boost = 0, s_total = 0\<rparr>\<rparr>"
proof -
  have b: "\<forall>c\<in>set (r_crops \<lparr>r_crops =
            [\<lparr>c_x = 0, c_y = 0, c_width = 14, c_height = 14,
              c_score = Some \<lparr>s_detail = 0, s_saturation = 0, s_skin = 0, s_boost = 0, s_total = 0\<rparr>\<rparr>,
             \<lparr>c_x = 0, c_y = 0, c_width = 12, c_height = 12,
              c_score = Some \<lparr>s_detail = 0, s_saturation = 0, s_skin = 0, s_boost = 0, s_total = 0\<rparr>\<rparr>],
          r_top_crop = Some 0\<rparr>).
            0 \<le> c_x c \<and> 0 \<le> c_y c
            \<and> real_of_int (c_x c) + c_width c
                \<le> real (im_width \<lparr>im_width = 16, im_height = 16, im_pixels = replicate 256 (0, 0, 0)\<rparr>)
            \<and> real_of_int (c_y c) + c_height c
                \<le> real (im_height \<lparr>im_width = 16, im_height = 16, im_pixels = replicate 256 (0, 0, 0)\<rparr>)
            \<and> c_width c \<in> \<int> \<and> c_height c \<in> \<int>"
    using crop_within_bounds[OF crop_16 _ _ _ black_pil_thumbnail] by simp
  show ?thesis
    using b crop_16 black_pil_thumbnail
    by (simp add: list_all_iff top_crop_def)
qed

end
